theory Spec2Isabelle
  imports Complex_Main "HOL-Library.Multiset"
begin

section \<open>Float64 values and numpy's arithmetic\<close>

text \<open>
  The debiaser computes on numpy float64 arrays. A value of an array is a finite
  number, one of the two zeros, one of the two infinities, or nan: \<open>Fin 0\<close> is +0.0
  and \<open>NegZero\<close> is -0.0. The finite numbers of the format are the reals
  \<open>m * 2 ^ e\<close> with \<open>|m| < 2 ^ 53\<close> and \<open>- 1074 \<le> e \<le> 971\<close>. numpy raises no
  exception on overflow, on a zero divisor or on an empty mean: it emits a
  RuntimeWarning and goes on with the infinity or the nan.
\<close>

datatype npfloat = Fin real | NegZero | PInf | NInf | NaN

definition representable :: "real \<Rightarrow> bool" where
  "representable r \<longleftrightarrow>
     (\<exists>e\<in>{- 1074 .. 971 :: int}. \<exists>m\<in>{- (2 ^ 53 - 1) .. 2 ^ 53 - 1 :: int}.
        r = of_int m * 2 powr of_int e)"


text \<open>
  Rounding to nearest, ties to even, of the exact result of an operation. A result at
  or beyond \<open>2 ^ 1024 - 2 ^ 970\<close>, half a unit in the last place above the largest
  finite number, overflows to an infinity; a representable result is kept; any other
  is rounded at the unit in the last place of its binade (\<open>2 ^ - 1074\<close> for the
  subnormal numbers), and a result that rounds to zero keeps its sign.
\<close>

definition round_half_even :: "real \<Rightarrow> int" where
  "round_half_even s =
     (let f = \<lfloor>s\<rfloor> in
      if s - of_int f < 1 / 2 then f
      else if 1 / 2 < s - of_int f then f + 1
      else if even f then f else f + 1)"

definition nearest_even :: "real \<Rightarrow> real" where
  "nearest_even r =
     (let q = max (\<lfloor>log 2 \<bar>r\<bar>\<rfloor> - 52) (- 1074)
      in of_int (round_half_even (r / 2 powr of_int q)) * 2 powr of_int q)"

definition round64 :: "real \<Rightarrow> npfloat" where
  "round64 r =
     (if 2 ^ 1024 - 2 ^ 970 \<le> \<bar>r\<bar> then (if 0 < r then PInf else NInf)
      else if representable r then Fin r
      else if nearest_even r = 0 then (if 0 < r then Fin 0 else NegZero)
      else Fin (nearest_even r))"

fun fval :: "npfloat \<Rightarrow> real" where
  "fval (Fin r) = r"
| "fval _ = 0"

fun is_zero :: "npfloat \<Rightarrow> bool" where
  "is_zero (Fin r) = (r = 0)"
| "is_zero NegZero = True"
| "is_zero _ = False"

fun is_inf :: "npfloat \<Rightarrow> bool" where
  "is_inf PInf = True"
| "is_inf NInf = True"
| "is_inf _ = False"


fun negative :: "npfloat \<Rightarrow> bool" where
  "negative (Fin r) = (r < 0)"
| "negative NegZero = True"
| "negative NInf = True"
| "negative _ = False"

fun fneg :: "npfloat \<Rightarrow> npfloat" where
  "fneg (Fin r) = (if r = 0 then NegZero else Fin (- r))"
| "fneg NegZero = Fin 0"
| "fneg PInf = NInf"
| "fneg NInf = PInf"
| "fneg NaN = NaN"

text \<open>
  The four operations of IEEE 754 on float64: nan propagates; infinities of opposite
  sign add to nan; a sum that is exactly zero is +0.0 unless both operands are -0.0;
  infinity times zero, infinity over infinity and zero over zero are nan; a finite
  number other than zero over a zero is an infinity; the sign of a product or a
  quotient is the exclusive or of the operands' signs; every other result is the exact
  result rounded. Subtraction adds the negated operand.
\<close>

definition fadd :: "npfloat \<Rightarrow> npfloat \<Rightarrow> npfloat" where
  "fadd a b =
     (if a = NaN \<or> b = NaN then NaN
      else if is_inf a then (if is_inf b \<and> a \<noteq> b then NaN else a)
      else if is_inf b then b
      else if fval a + fval b = 0 then (if a = NegZero \<and> b = NegZero then NegZero else Fin 0)
      else round64 (fval a + fval b))"

definition fsub :: "npfloat \<Rightarrow> npfloat \<Rightarrow> npfloat" where
  "fsub a b = fadd a (fneg b)"

definition fmul :: "npfloat \<Rightarrow> npfloat \<Rightarrow> npfloat" where
  "fmul a b =
     (if a = NaN \<or> b = NaN then NaN
      else if (is_inf a \<and> is_zero b) \<or> (is_zero a \<and> is_inf b) then NaN
      else if is_inf a \<or> is_inf b then (if negative a \<noteq> negative b then NInf else PInf)
      else if is_zero a \<or> is_zero b then (if negative a \<noteq> negative b then NegZero else Fin 0)
      else round64 (fval a * fval b))"

definition fdiv :: "npfloat \<Rightarrow> npfloat \<Rightarrow> npfloat" where
  "fdiv a b =
     (if a = NaN \<or> b = NaN then NaN
      else if (is_inf a \<and> is_inf b) \<or> (is_zero a \<and> is_zero b) then NaN
      else if is_inf a \<or> is_zero b then (if negative a \<noteq> negative b then NInf else PInf)
      else if is_inf b \<or> is_zero a then (if negative a \<noteq> negative b then NegZero else Fin 0)
      else round64 (fval a / fval b))"

text \<open>
  \<^verbatim>\<open>np.mean\<close> of a one-dimensional array: the float64 sum of the elements divided by
  their number, so nan (zero over zero) for the empty array. The sum is accumulated in
  the order of the array. numpy may group the additions of a long array in blocks; the
  theorems about the debiaser take the two means as they come and depend on no
  grouping.
\<close>

fun np_sum :: "npfloat list \<Rightarrow> npfloat" where
  "np_sum [] = Fin 0"
| "np_sum (x # xs) = foldl fadd x xs"

definition np_mean :: "npfloat list \<Rightarrow> npfloat" where
  "np_mean xs = fdiv (np_sum xs) (Fin (real (length xs)))"

section \<open>The LinearScaling debiaser of the notebook\<close>

datatype error = ValueError | ConfigurationError | ShapeMismatchError | TypeError

text \<open>
  \<^verbatim>\<open>class LinearScaling(RunningWindowDebiaser)\<close> with its own attribute
  \<^verbatim>\<open>delta_type: str = "additive"\<close>, declared with no validator, and the attribute
  \<open>variable\<close> that both \<^verbatim>\<open>from_variable\<close> methods pass to the constructor. The other
  attributes come from \<^verbatim>\<open>RunningWindowDebiaser\<close>, which the notebook imports and
  does not define: \<open>inherited\<close> holds the keyword arguments given for them, and an
  attribute with no entry there has the default of its class.
\<close>

record LinearScaling =
  variable :: string
  delta_type :: string
  inherited :: "(string \<times> string) list"

text \<open>
  \<^verbatim>\<open>
  def apply_on_window(self, obs, cm_hist, cm_future, **kwargs):
      if self.delta_type == "additive":
          return cm_future - (np.mean(cm_hist) - np.mean(obs))
      elif self.delta_type == "multiplicative":
          return cm_future * (np.mean(obs) / np.mean(cm_hist))
      else:
          raise ValueError(...)
  \<close>
  The scalar is broadcast over \<open>cm_future\<close>. The keyword arguments are not read.
\<close>

definition apply_on_window ::
  "LinearScaling \<Rightarrow> npfloat list \<Rightarrow> npfloat list \<Rightarrow> npfloat list \<Rightarrow> error + npfloat list" where
  "apply_on_window self obs cm_hist cm_future =
     (if delta_type self = ''additive'' then
        Inr (map (\<lambda>x. fsub x (fsub (np_mean cm_hist) (np_mean obs))) cm_future)
      else if delta_type self = ''multiplicative'' then
        Inr (map (\<lambda>x. fmul x (fdiv (np_mean obs) (np_mean cm_hist))) cm_future)
      else Inl ValueError)"

text \<open>
  The first \<^verbatim>\<open>from_variable\<close> of the notebook:
  \<^verbatim>\<open>
  @classmethod
  def from_variable(cls, variable, delta_type, **kwargs):
      return cls(variable = variable, delta_type = delta_type)
  \<close>
  The constructor that attrs generates stores both values; the remaining keyword
  arguments are not passed on. The result is a sum so that a failing construction has
  a value to be; this one has no failing branch.
\<close>

definition from_variable ::
  "string \<Rightarrow> string \<Rightarrow> (string \<times> string) list \<Rightarrow> error + LinearScaling" where
  "from_variable v d kwargs = Inr \<lparr>variable = v, delta_type = d, inherited = []\<rparr>"

section \<open>The method as a step on the store\<close>

text \<open>
  Python passes the arrays and the method object by reference. The store maps a
  reference to the array or to the object it names; \<open>next_ref\<close> is the first reference
  not yet in use. The body of \<^verbatim>\<open>apply_on_window\<close> performs three kinds of operation
  on it: it reads an attribute of \<open>self\<close>; \<^verbatim>\<open>np.mean(a)\<close> reads an array; and
  \<^verbatim>\<open>a - c\<close> or \<^verbatim>\<open>a * c\<close> with a scalar \<open>c\<close> allocates a new array for the result
  and leaves \<open>a\<close> as it is (unlike \<^verbatim>\<open>a -= c\<close>, which would write into \<open>a\<close>).
\<close>

record heap =
  arrays :: "nat \<Rightarrow> npfloat list"
  objects :: "nat \<Rightarrow> LinearScaling"
  next_ref :: nat

definition new_array :: "npfloat list \<Rightarrow> heap \<Rightarrow> nat \<times> heap" where
  "new_array ys s =
     (next_ref s, s\<lparr>arrays := (arrays s)(next_ref s := ys), next_ref := Suc (next_ref s)\<rparr>)"

definition array_mean :: "nat \<Rightarrow> heap \<Rightarrow> npfloat" where
  "array_mean a s = np_mean (arrays s a)"

definition array_minus_scalar :: "nat \<Rightarrow> npfloat \<Rightarrow> heap \<Rightarrow> nat \<times> heap" where
  "array_minus_scalar a c s = new_array (map (\<lambda>x. fsub x c) (arrays s a)) s"

definition array_times_scalar :: "nat \<Rightarrow> npfloat \<Rightarrow> heap \<Rightarrow> nat \<times> heap" where
  "array_times_scalar a c s = new_array (map (\<lambda>x. fmul x c) (arrays s a)) s"

text \<open>
  A call of \<^verbatim>\<open>apply_on_window\<close> on references: the result is the error raised, or
  the reference of the array returned, beside the store after the call.
\<close>

definition apply_on_window_call ::
  "nat \<Rightarrow> nat \<Rightarrow> nat \<Rightarrow> nat \<Rightarrow> heap \<Rightarrow> (error + nat) \<times> heap" where
  "apply_on_window_call self obs cm_hist cm_future s =
     (if delta_type (objects s self) = ''additive'' then
        (case array_minus_scalar cm_future
                (fsub (array_mean cm_hist s) (array_mean obs s)) s of
           (r, s') \<Rightarrow> (Inr r, s'))
      else if delta_type (objects s self) = ''multiplicative'' then
        (case array_times_scalar cm_future
                (fdiv (array_mean obs s) (array_mean cm_hist s)) s of
           (r, s') \<Rightarrow> (Inr r, s'))
      else (Inl ValueError, s))"

section \<open>Default settings\<close>

text \<open>
  The second cell defining \<open>LinearScaling\<close> resolves the parameters from two tables:
  \<^verbatim>\<open>
  default_settings = {tas: {"delta_type": "additive"}, pr: {"delta_type": "multiplicative"},}
  experimental_default_settings = {hurs: {"delta_type": "multiplicative"}, psl: {"delta_type": "additive"}}
  \<close>
  A variable is identified by its name, the string that \<^verbatim>\<open>from_variable("psl")\<close>
  is called with. A dictionary is a list of pairs of a key and its value, the keys
  distinct.
\<close>

definition default_settings :: "(string \<times> (string \<times> string) list) list" where
  "default_settings =
     [(''tas'', [(''delta_type'', ''additive'')]),
      (''pr'', [(''delta_type'', ''multiplicative'')])]"

definition experimental_default_settings :: "(string \<times> (string \<times> string) list) list" where
  "experimental_default_settings =
     [(''hurs'', [(''delta_type'', ''multiplicative'')]),
      (''psl'', [(''delta_type'', ''additive'')])]"

text \<open>
  \<^verbatim>\<open>{**defaults, **kwargs}\<close>: the entries of \<open>kwargs\<close>, and those of \<open>defaults\<close> whose
  key \<open>kwargs\<close> does not have.
\<close>

definition dict_merge ::
  "(string \<times> string) list \<Rightarrow> (string \<times> string) list \<Rightarrow> (string \<times> string) list" where
  "dict_merge defaults kwargs = [kv \<leftarrow> defaults. fst kv \<notin> set (map fst kwargs)] @ kwargs"

text \<open>
  The constructor called with keyword arguments, \<^verbatim>\<open>cls(variable = v, **params)\<close>.
  The constructor that attrs generates takes one keyword for each attribute of the
  class and raises TypeError for any other, and for \<open>variable\<close> given twice.
  \<open>delta_type\<close> is the value given, or the default \<^verbatim>\<open>"additive"\<close> of the class. The
  names of the attributes inherited from \<^verbatim>\<open>RunningWindowDebiaser\<close> are the
  parameter \<open>names\<close>.
\<close>

definition is_attribute :: "string list \<Rightarrow> string \<Rightarrow> bool" where
  "is_attribute names k \<longleftrightarrow> k \<noteq> ''variable'' \<and> (k = ''delta_type'' \<or> k \<in> set names)"

definition LinearScaling_init ::
  "string list \<Rightarrow> string \<Rightarrow> (string \<times> string) list \<Rightarrow> error + LinearScaling" where
  "LinearScaling_init names v params =
     (if list_all (is_attribute names) (map fst params) then
        Inr \<lparr>variable = v,
             delta_type = (case map_of params ''delta_type'' of None \<Rightarrow> ''additive'' | Some d \<Rightarrow> d),
             inherited = [kv \<leftarrow> params. fst kv \<noteq> ''delta_type'']\<rparr>
      else Inl TypeError)"

text \<open>The value an instance has for an attribute that was given to its constructor.\<close>

definition attribute :: "LinearScaling \<Rightarrow> string \<Rightarrow> string option" where
  "attribute m k =
     (if k = ''variable'' then Some (variable m)
      else if k = ''delta_type'' then Some (delta_type m)
      else map_of (inherited m) k)"

datatype warning = ExperimentalDefaultsWarning string

text \<open>
  Modelled from the spec: \<^verbatim>\<open>cls._from_variable\<close>, the helper of the library's
  \<^verbatim>\<open>Debiaser\<close> class that the notebook calls and does not define. After section 4.1
  of the specification: the identifier must resolve in one of the two tables, or the
  call fails with a ConfigurationError; an identifier that resolves in the experimental
  table only gives one warning and still the configured method; the caller's keyword
  arguments take precedence over the resolved defaults, field by field; there is no
  other effect. The method is built by the constructor of the class, whose error is
  the error of the call. The warnings emitted are returned beside the method.
\<close>

definition cls_from_variable ::
  "string list \<Rightarrow> string \<Rightarrow> (string \<times> (string \<times> string) list) list
     \<Rightarrow> (string \<times> (string \<times> string) list) list \<Rightarrow> (string \<times> string) list
     \<Rightarrow> error + (LinearScaling \<times> warning list)" where
  "cls_from_variable names v default_tbl experimental_tbl kwargs =
     (case map_of default_tbl v of
        Some defaults \<Rightarrow>
          (case LinearScaling_init names v (dict_merge defaults kwargs) of
             Inl e \<Rightarrow> Inl e
           | Inr m \<Rightarrow> Inr (m, []))
      | None \<Rightarrow>
          (case map_of experimental_tbl v of
             Some defaults \<Rightarrow>
               (case LinearScaling_init names v (dict_merge defaults kwargs) of
                  Inl e \<Rightarrow> Inl e
                | Inr m \<Rightarrow> Inr (m, [ExperimentalDefaultsWarning v]))
           | None \<Rightarrow> Inl ConfigurationError))"

text \<open>
  The second \<^verbatim>\<open>from_variable\<close> of the notebook:
  \<^verbatim>\<open>
  @classmethod
  def from_variable(cls, variable, **kwargs):
      return cls._from_variable(cls, variable, default_settings, experimental_default_settings, **kwargs)
  \<close>
\<close>

definition from_variable_settings ::
  "string list \<Rightarrow> string \<Rightarrow> (string \<times> string) list
     \<Rightarrow> error + (LinearScaling \<times> warning list)" where
  "from_variable_settings names v kwargs =
     cls_from_variable names v default_settings experimental_default_settings kwargs"

section \<open>The orchestrator\<close>

text \<open>
  The notebook calls \<^verbatim>\<open>debiaser.apply(obs, cm_hist, cm_future, parallel = True,
  nr_processes = 8)\<close> and does not define it. The definitions of this section follow
  sections 3, 4.4, 5 and 7 of the specification. A ClimateField is a three-dimensional
  array with the axes time, space_x, space_y; a ResultField has the shape of the
  future field. A location is a pair of spatial indices, and a strategy is the
  processing entry point of a configured method.
\<close>

type_synonym location = "nat \<times> nat"

type_synonym strategy =
  "npfloat list \<Rightarrow> npfloat list \<Rightarrow> npfloat list \<Rightarrow> error + npfloat list"

text \<open>
  Modelled from the spec: the series of a field at one fixed location, \<^verbatim>\<open>fld[:, i, j]\<close>,
  which the absent \<^verbatim>\<open>Debiaser.apply\<close> hands to the strategy.
\<close>

definition series :: "'a list list list \<Rightarrow> location \<Rightarrow> 'a list" where
  "series fld loc = map (\<lambda>plane. plane ! fst loc ! snd loc) fld"

text \<open>
  Modelled from the spec: the spatial extents of a field, which the absent
  \<^verbatim>\<open>Debiaser.apply\<close> compares between its three inputs.
\<close>

definition extents :: "'a list list list \<Rightarrow> nat \<times> nat" where
  "extents fld =
     (case fld of
        [] \<Rightarrow> (0, 0)
      | plane # _ \<Rightarrow> (length plane, (case plane of [] \<Rightarrow> 0 | row # _ \<Rightarrow> length row)))"

text \<open>
  Modelled from the spec: the spatial locations that the absent \<^verbatim>\<open>Debiaser.apply\<close>
  iterates over, in the order of the sequential iteration.
\<close>

definition locations :: "nat \<times> nat \<Rightarrow> location list" where
  "locations ext = List.product [0..<fst ext] [0..<snd ext]"

text \<open>
  Modelled from the spec: the ResultField before any location is processed in the
  absent \<^verbatim>\<open>Debiaser.apply\<close>, every cell the sentinel (the fill value nan).
\<close>

definition sentinel_field :: "nat \<Rightarrow> nat \<times> nat \<Rightarrow> npfloat list list list" where
  "sentinel_field nt ext = replicate nt (replicate (fst ext) (replicate (snd ext) NaN))"

text \<open>
  Modelled from the spec: storing the output of one location into the ResultField,
  \<^verbatim>\<open>out[:, i, j] = ys\<close>, as the absent \<^verbatim>\<open>Debiaser.apply\<close> assembles its result. By
  the contract of section 4.2 the output is as long as the time axis.
\<close>

definition set_cell :: "'a list list \<Rightarrow> location \<Rightarrow> 'a \<Rightarrow> 'a list list" where
  "set_cell plane loc y = plane[fst loc := (plane ! fst loc)[snd loc := y]]"

definition write_location ::
  "npfloat list list list \<Rightarrow> location \<Rightarrow> npfloat list \<Rightarrow> npfloat list list list" where
  "write_location out loc ys = map2 (\<lambda>plane y. set_cell plane loc y) out ys"

text \<open>
  Modelled from the spec: the unit of work of the absent \<^verbatim>\<open>Debiaser.apply\<close>, the
  strategy invoked on the three series of one location.
\<close>

definition unit_of_work ::
  "strategy \<Rightarrow> npfloat list list list \<Rightarrow> npfloat list list list \<Rightarrow> npfloat list list list
     \<Rightarrow> location \<Rightarrow> error + npfloat list" where
  "unit_of_work f obs cm_hist cm_future loc =
     f (series obs loc) (series cm_hist loc) (series cm_future loc)"

text \<open>
  Modelled from the spec: the sequential iteration of the absent \<^verbatim>\<open>Debiaser.apply\<close>.
  Each location is processed and stored in turn. A failure aborts the call and
  propagates the error, unless \<open>failsafe\<close> is set: then the cells of the location stay
  the sentinel and the iteration goes on (the log record of the failure is no part of
  the ResultField and is left out).
\<close>

fun iterate_locations ::
  "bool \<Rightarrow> (location \<Rightarrow> error + npfloat list) \<Rightarrow> npfloat list list list \<Rightarrow> location list
     \<Rightarrow> error + npfloat list list list" where
  "iterate_locations failsafe work out [] = Inr out"
| "iterate_locations failsafe work out (loc # locs) =
     (case work loc of
        Inr ys \<Rightarrow> iterate_locations failsafe work (write_location out loc ys) locs
      | Inl e \<Rightarrow> if failsafe then iterate_locations failsafe work out locs else Inl e)"

text \<open>
  Modelled from the spec: the result collection of the parallel mode of the absent
  \<^verbatim>\<open>Debiaser.apply\<close>. The workers' results arrive as pairs of a location and what the
  unit of work returned, in the order of completion, and each is stored at its own
  location.
\<close>

fun assemble ::
  "bool \<Rightarrow> npfloat list list list \<Rightarrow> (location \<times> (error + npfloat list)) list
     \<Rightarrow> error + npfloat list list list" where
  "assemble failsafe out [] = Inr out"
| "assemble failsafe out ((loc, Inr ys) # results) =
     assemble failsafe (write_location out loc ys) results"
| "assemble failsafe out ((loc, Inl e) # results) =
     (if failsafe then assemble failsafe out results else Inl e)"

text \<open>
  Modelled from the spec: \<^verbatim>\<open>Debiaser.apply\<close>, the entry point of the orchestrator,
  which is library code that the notebook calls and does not define. Fields whose
  spatial extents disagree are refused before any location is processed. With
  \<open>parallel\<close> the units of work are distributed over the worker processes, which
  share no state; the scheduling shows in the result only through the order in which
  the units complete, the argument \<open>completion_order\<close> (the size of the pool,
  \<^verbatim>\<open>nr_processes\<close>, decides no more than which orders can occur). Without \<open>parallel\<close>
  the locations are iterated in their own order.
\<close>

definition Debiaser_apply ::
  "strategy \<Rightarrow> npfloat list list list \<Rightarrow> npfloat list list list \<Rightarrow> npfloat list list list
     \<Rightarrow> bool \<Rightarrow> bool \<Rightarrow> location list \<Rightarrow> error + npfloat list list list" where
  "Debiaser_apply f obs cm_hist cm_future parallel failsafe completion_order =
     (if extents obs \<noteq> extents cm_future \<or> extents cm_hist \<noteq> extents cm_future
      then Inl ShapeMismatchError
      else if parallel then
        assemble failsafe (sentinel_field (length cm_future) (extents cm_future))
          (map (\<lambda>loc. (loc, unit_of_work f obs cm_hist cm_future loc)) completion_order)
      else
        iterate_locations failsafe (unit_of_work f obs cm_hist cm_future)
          (sentinel_field (length cm_future) (extents cm_future))
          (locations (extents cm_future)))"

text \<open>
  Three notions for the proofs about the orchestrator: what one unit of work leaves in
  the output when every failure is tolerated; a location that lies inside every plane
  of a field; and units of work whose outputs all have a given length.
\<close>

definition store ::
  "(location \<Rightarrow> error + npfloat list) \<Rightarrow> location \<Rightarrow> npfloat list list list
     \<Rightarrow> npfloat list list list" where
  "store work loc out = (case work loc of Inr ys \<Rightarrow> write_location out loc ys | Inl e \<Rightarrow> out)"

definition in_bounds :: "'a list list list \<Rightarrow> location \<Rightarrow> bool" where
  "in_bounds out loc =
     (\<forall>plane\<in>set out. fst loc < length plane \<and> snd loc < length (plane ! fst loc))"

definition aligned :: "(location \<Rightarrow> error + npfloat list) \<Rightarrow> location set \<Rightarrow> nat \<Rightarrow> bool" where
  "aligned work locs nt = (\<forall>loc\<in>locs. \<forall>ys. work loc = Inr ys \<longrightarrow> length ys = nt)"

section \<open>Unit conversion of the preprocessing notebook\<close>

text \<open>
  The four arrays the preprocessing notebook holds once the cubes are reduced to their
  data, each with the axes time, latitude, longitude. The cell of section 2.4 is
  \<^verbatim>\<open>obs_era5 = obs_era5/86400\<close>: numpy divides every element by the scalar and
  binds the name to the new array; no other name is assigned.
\<close>

record datasets =
  cm_hist :: "real list list list"
  cm_future :: "real list list list"
  obs_era5 :: "real list list list"
  obs_ncep_doe :: "real list list list"

definition np_divide_scalar :: "real list list list \<Rightarrow> real \<Rightarrow> real list list list" where
  "np_divide_scalar a c = map (map (map (\<lambda>x. x / c))) a"

definition convert_units :: "datasets \<Rightarrow> datasets" where
  "convert_units s = s\<lparr>obs_era5 := np_divide_scalar (obs_era5 s) 86400\<rparr>"

section \<open>Facts of the float64 arithmetic\<close>

lemma representable_Ints:
  assumes "r \<in> \<int>" and "\<bar>r\<bar> < 2 ^ 53"
  shows "representable r"
proof -
  from assms(1) obtain m :: int where m: "r = of_int m"
    by (auto elim: Ints_cases)
  with assms(2) have "\<bar>m\<bar> < 2 ^ 53"
    by (metis of_int_abs of_int_less_numeral_power_cancel_iff)
  then have "m \<in> {- (2 ^ 53 - 1) .. 2 ^ 53 - 1}"
    by auto
  moreover have "(0 :: int) \<in> {- 1074 .. 971}"
    by simp
  moreover have "r = of_int m * 2 powr of_int 0"
    by (simp add: m)
  ultimately show ?thesis
    unfolding representable_def by blast
qed

lemma representable_bound:
  assumes "representable r"
  shows "\<bar>r\<bar> < 2 ^ 1024 - 2 ^ 970"
proof -
  from assms obtain e m :: int where ein: "e \<in> {- 1074 .. 971}"
    and min: "m \<in> {- (2 ^ 53 - 1) .. 2 ^ 53 - 1}"
    and r: "r = of_int m * 2 powr of_int e"
    unfolding representable_def by blast
  from ein have e: "e \<le> 971"
    by simp
  from min have m: "\<bar>m\<bar> \<le> 2 ^ 53 - 1"
    by auto
  have "2 powr (of_int e :: real) \<le> 2 powr 971"
    using e by (intro powr_mono) simp_all
  then have p: "2 powr (of_int e :: real) \<le> 2 ^ 971"
    by simp
  have "real_of_int \<bar>m\<bar> \<le> real_of_int (2 ^ 53 - 1)"
    using m by (simp only: of_int_le_iff)
  then have "\<bar>real_of_int m\<bar> \<le> 2 ^ 53 - 1"
    by simp
  then have "\<bar>r\<bar> \<le> (2 ^ 53 - 1) * 2 ^ 971"
    unfolding r abs_mult using p by (intro mult_mono) simp_all
  also have "\<dots> < (2 ^ 1024 - 2 ^ 970 :: real)"
    by simp
  finally show ?thesis .
qed

lemma round64_representable: "representable r \<Longrightarrow> round64 r = Fin r"
  using representable_bound [of r] by (simp add: round64_def)


lemma fadd_Fin: "representable (x + y) \<Longrightarrow> fadd (Fin x) (Fin y) = Fin (x + y)"
  by (simp add: fadd_def round64_representable)

lemma fsub_Fin: "representable (x - y) \<Longrightarrow> fsub (Fin x) (Fin y) = Fin (x - y)"
  by (auto simp: fsub_def fadd_def round64_representable)

lemma fmul_Fin:
  "x \<noteq> 0 \<Longrightarrow> y \<noteq> 0 \<Longrightarrow> representable (x * y) \<Longrightarrow> fmul (Fin x) (Fin y) = Fin (x * y)"
  by (simp add: fmul_def round64_representable)

lemma fdiv_Fin:
  "0 < y \<Longrightarrow> 0 \<le> x \<Longrightarrow> representable (x / y) \<Longrightarrow> fdiv (Fin x) (Fin y) = Fin (x / y)"
  by (auto simp: fdiv_def round64_representable)






lemma apply_on_window_additive_eq:
  "delta_type m = ''additive'' \<Longrightarrow>
   apply_on_window m obs hist fut
     = Inr (map (\<lambda>x. fsub x (fsub (np_mean hist) (np_mean obs))) fut)"
  by (simp add: apply_on_window_def)



lemma np_mean_overflow: "np_mean [Fin (2 ^ 1023), Fin (2 ^ 1023)] = PInf"
  by (simp add: np_mean_def fadd_def fdiv_def round64_def)

text \<open>
  Rounding at work: \<open>10 ^ 16 + 1\<close> lies halfway between two float64 numbers and is
  rounded to the one with the even significand, so adding 1 to \<open>10 ^ 16\<close> changes
  nothing and the mean of \<open>[10 ^ 16, 1, - 10 ^ 16]\<close> is 0.0, not a third.
\<close>

lemma not_representable_absorbed: "\<not> representable (10 ^ 16 + 1)"
proof
  assume "representable (10 ^ 16 + 1)"
  then obtain e m :: int where ein: "e \<in> {- 1074 .. 971}"
    and min: "m \<in> {- (2 ^ 53 - 1) .. 2 ^ 53 - 1}"
    and r: "(10 ^ 16 + 1 :: real) = of_int m * 2 powr of_int e"
    unfolding representable_def by blast
  show False
  proof (cases "e \<le> 0")
    case True
    then have "2 powr (of_int e :: real) \<le> 2 powr 0"
      by (intro powr_mono) simp_all
    then have p: "2 powr (of_int e :: real) \<le> 1"
      by simp
    from min have "\<bar>m\<bar> \<le> 2 ^ 53 - 1"
      by auto
    then have "real_of_int \<bar>m\<bar> \<le> real_of_int (2 ^ 53 - 1)"
      by (simp only: of_int_le_iff)
    then have m: "\<bar>real_of_int m\<bar> \<le> 2 ^ 53 - 1"
      by simp
    have "\<bar>real_of_int m * 2 powr of_int e\<bar> \<le> (2 ^ 53 - 1) * 1"
      unfolding abs_mult using m p by (intro mult_mono) simp_all
    with r show False
      by simp
  next
    case False
    then have "2 powr (of_int e :: real) = 2 ^ nat e"
      by (simp add: powr_real_of_int)
    with r have "real_of_int (10 ^ 16 + 1) = real_of_int (m * 2 ^ nat e)"
      by simp
    then have eq: "(10 ^ 16 + 1 :: int) = m * 2 ^ nat e"
      by (simp only: of_int_eq_iff)
    from False have "even (m * 2 ^ nat e)"
      by simp
    with eq have "even (10 ^ 16 + 1 :: int)"
      by simp
    then show False
      by simp
  qed
qed

lemma floor_log2:
  "0 < x \<Longrightarrow> 2 powr real_of_int k \<le> x \<Longrightarrow> x < 2 powr (real_of_int k + 1) \<Longrightarrow> \<lfloor>log 2 x\<rfloor> = k"
  by (simp add: floor_log_eq_powr_iff)

lemma nearest_even_absorbed: "nearest_even (10 ^ 16 + 1) = 10 ^ 16"
proof -
  have l: "\<lfloor>log 2 \<bar>10 ^ 16 + 1 :: real\<bar>\<rfloor> = 53"
    by (rule floor_log2) (simp_all add: powr_add)
  have "(10 ^ 16 + 1 :: real) / 2 = 5000000000000000 + 1 / 2"
    by simp
  then have f: "\<lfloor>(10 ^ 16 + 1 :: real) / 2\<rfloor> = 5000000000000000"
    by (simp add: floor_eq_iff)
  show ?thesis
    unfolding nearest_even_def l Let_def
    by (simp add: round_half_even_def f)
qed

lemma round64_absorbed: "round64 (10 ^ 16 + 1) = Fin (10 ^ 16)"
  unfolding round64_def nearest_even_absorbed
  using not_representable_absorbed by simp

lemma np_mean_absorbed: "np_mean [Fin (10 ^ 16), Fin 1, Fin (- (10 ^ 16))] = Fin 0"
proof -
  have "round64 10000000000000001 = Fin 10000000000000000"
    using round64_absorbed by simp
  then show ?thesis
    by (simp add: np_mean_def fadd_def fdiv_def)
qed

text \<open>
  Both effects reach the result of the method. A mean of cm_hist that overflows
  gives -inf in the additive branch, and cm_hist = \<open>[10 ^ 16, 1, - 10 ^ 16]\<close>, whose
  float64 mean is 0.0, gives inf in the multiplicative branch.
\<close>

lemma apply_on_window_additive_overflow:
  "apply_on_window \<lparr>variable = ''tas'', delta_type = ''additive'', inherited = []\<rparr>
     [Fin 0] [Fin (2 ^ 1023), Fin (2 ^ 1023)] [Fin 1] = Inr [NInf]"
proof -
  let ?m = "\<lparr>variable = ''tas'', delta_type = ''additive'', inherited = []\<rparr>"
  let ?big = "[Fin (2 ^ 1023), Fin (2 ^ 1023)]"
  have z: "np_mean [Fin 0] = Fin 0"
    by (simp add: np_mean_def fdiv_def)
  have "apply_on_window ?m [Fin 0] ?big [Fin 1]
      = Inr (map (\<lambda>x. fsub x (fsub (np_mean ?big) (np_mean [Fin 0]))) [Fin 1])"
    by (rule apply_on_window_additive_eq) simp
  also have "\<dots> = Inr [NInf]"
    unfolding np_mean_overflow z by (simp add: fsub_def fadd_def)
  finally show ?thesis .
qed

lemma apply_on_window_multiplicative_absorbed:
  "apply_on_window \<lparr>variable = ''pr'', delta_type = ''multiplicative'', inherited = []\<rparr>
     [Fin 1] [Fin (10 ^ 16), Fin 1, Fin (- (10 ^ 16))] [Fin 5] = Inr [PInf]"
proof -
  have o: "np_mean [Fin 1] = Fin 1"
    by (simp add: np_mean_def fdiv_Fin representable_Ints)
  show ?thesis
    unfolding apply_on_window_def np_mean_absorbed o
    by (simp add: fdiv_def fmul_def)
qed

section \<open>The additive transformation\<close>

text \<open>
  C1. With \<open>delta_type = "additive"\<close>, \<open>apply_on_window\<close> on obs = [1,1,1],
  cm_hist = [2,2,2], cm_future = [5,5,5] returns [4,4,4]. In general the result is
  cm_future minus (mean(cm_hist) minus mean(obs)), element by element, in float64
  arithmetic; and it is that difference of real numbers wherever the two
  subtractions are exact.
\<close>

theorem apply_on_window_additive:
  assumes "delta_type m = ''additive''"
  shows "apply_on_window m [Fin 1, Fin 1, Fin 1] [Fin 2, Fin 2, Fin 2] [Fin 5, Fin 5, Fin 5]
           = Inr [Fin 4, Fin 4, Fin 4]
         \<and> apply_on_window m obs hist fut
             = Inr (map (\<lambda>x. fsub x (fsub (np_mean hist) (np_mean obs))) fut)
         \<and> (\<forall>mo mh. np_mean obs = Fin mo \<longrightarrow> np_mean hist = Fin mh \<longrightarrow>
              representable (mh - mo) \<longrightarrow>
              (\<forall>x\<in>set fut. \<exists>r. x = Fin r \<and> representable (r - (mh - mo))) \<longrightarrow>
              apply_on_window m obs hist fut
                = Inr (map (\<lambda>x. Fin (fval x - (mh - mo))) fut))"
proof (intro conjI allI impI)
  show "apply_on_window m [Fin 1, Fin 1, Fin 1] [Fin 2, Fin 2, Fin 2] [Fin 5, Fin 5, Fin 5]
           = Inr [Fin 4, Fin 4, Fin 4]"
    using assms
    by (simp add: apply_on_window_def np_mean_def fadd_Fin fsub_Fin fdiv_Fin representable_Ints)
next
  show "apply_on_window m obs hist fut
          = Inr (map (\<lambda>x. fsub x (fsub (np_mean hist) (np_mean obs))) fut)"
    using assms by (simp add: apply_on_window_def)
next
  fix mo mh
  assume mo: "np_mean obs = Fin mo" and mh: "np_mean hist = Fin mh"
    and d: "representable (mh - mo)"
    and xs: "\<forall>x\<in>set fut. \<exists>r. x = Fin r \<and> representable (r - (mh - mo))"
  have "fsub x (Fin (mh - mo)) = Fin (fval x - (mh - mo))" if "x \<in> set fut" for x
  proof -
    from xs that obtain r where "x = Fin r" and "representable (r - (mh - mo))"
      by blast
    then show ?thesis
      by (simp add: fsub_Fin)
  qed
  then show "apply_on_window m obs hist fut = Inr (map (\<lambda>x. Fin (fval x - (mh - mo))) fut)"
    using assms by (simp add: apply_on_window_def mo mh fsub_Fin [OF d])
qed

theorem apply_on_window_additive_witness:
  "np_mean [Fin 1, Fin 2, Fin 3] = Fin 2 \<and> np_mean [Fin 3, Fin 5, Fin 7] = Fin 5
   \<and> apply_on_window \<lparr>variable = ''tas'', delta_type = ''additive'', inherited = []\<rparr>
       [Fin 1, Fin 2, Fin 3] [Fin 3, Fin 5, Fin 7] [Fin 10, Fin 20]
     = Inr [Fin 7, Fin 17]"
proof -
  let ?m = "\<lparr>variable = ''tas'', delta_type = ''additive'', inherited = []\<rparr>"
  have d: "delta_type ?m = ''additive''"
    by simp
  have mo: "np_mean [Fin 1, Fin 2, Fin 3] = Fin 2" and mh: "np_mean [Fin 3, Fin 5, Fin 7] = Fin 5"
    by (simp_all add: np_mean_def fadd_Fin fdiv_Fin representable_Ints)
  have r: "representable (5 - 2)"
    by (simp add: representable_Ints)
  have xs: "\<forall>x\<in>set [Fin 10, Fin 20]. \<exists>r. x = Fin r \<and> representable (r - (5 - 2))"
    by (simp add: representable_Ints)
  from apply_on_window_additive [OF d, of "[Fin 1, Fin 2, Fin 3]" "[Fin 3, Fin 5, Fin 7]"
      "[Fin 10, Fin 20]"] mo mh r xs
  have "apply_on_window ?m [Fin 1, Fin 2, Fin 3] [Fin 3, Fin 5, Fin 7] [Fin 10, Fin 20]
      = Inr (map (\<lambda>x. Fin (fval x - (5 - 2))) [Fin 10, Fin 20])"
    by blast
  with mo mh show ?thesis
    by simp
qed




section \<open>The multiplicative transformation\<close>



section \<open>Shape and purity of the entry point\<close>

text \<open>
  C5. For every obs, cm_hist and cm_future and each of the two valid values of
  \<open>delta_type\<close>, \<open>apply_on_window\<close> returns a sequence as long as cm_future.
\<close>

theorem apply_on_window_length:
  assumes "delta_type m = ''additive'' \<or> delta_type m = ''multiplicative''"
  shows "\<exists>ys. apply_on_window m obs hist fut = Inr ys \<and> length ys = length fut"
  using assms by (auto simp: apply_on_window_def)

theorem apply_on_window_length_witness:
  "\<exists>ys. apply_on_window \<lparr>variable = ''pr'', delta_type = ''multiplicative'', inherited = []\<rparr>
          [] [Fin 0] [Fin 5, Fin 6, Fin 7]
          = Inr ys \<and> length ys = 3"
  using apply_on_window_length
    [of "\<lparr>variable = ''pr'', delta_type = ''multiplicative'', inherited = []\<rparr>"
      "[]" "[Fin 0]" "[Fin 5, Fin 6, Fin 7]"]
  by (simp add: numeral_3_eq_3)

lemma apply_on_window_call_result:
  assumes "apply_on_window_call self obs hist fut s = (res, s')"
  shows "objects s' = objects s
       \<and> (\<forall>a<next_ref s. arrays s' a = arrays s a)
       \<and> (case res of
            Inl e \<Rightarrow>
              s' = s
              \<and> apply_on_window (objects s self) (arrays s obs) (arrays s hist) (arrays s fut)
                  = Inl e
          | Inr r \<Rightarrow>
              r = next_ref s \<and> next_ref s' = Suc (next_ref s)
              \<and> apply_on_window (objects s self) (arrays s obs) (arrays s hist) (arrays s fut)
                  = Inr (arrays s' r))"
  using assms
  by (auto simp: apply_on_window_call_def apply_on_window_def array_minus_scalar_def
      array_times_scalar_def array_mean_def new_array_def split: if_splits)

text \<open>
  C6. Two successive calls of \<open>apply_on_window\<close> on the same method object and the
  same three arrays return the same result: the same error, or two arrays of equal
  content, each the result of the method on the inputs as they were before the first
  call. No call writes into the method object or into an array that existed before
  it, so \<open>delta_type\<close> and \<open>variable\<close> are unchanged.
\<close>

theorem apply_on_window_call_twice:
  assumes "obs < next_ref s" and "hist < next_ref s" and "fut < next_ref s"
  shows "case apply_on_window_call self obs hist fut s of
           (r1, s1) \<Rightarrow>
             (case apply_on_window_call self obs hist fut s1 of
                (r2, s2) \<Rightarrow>
                  (case r1 of
                     Inl e \<Rightarrow> r2 = Inl e
                   | Inr a1 \<Rightarrow>
                       (\<exists>a2. r2 = Inr a2 \<and> a2 \<noteq> a1
                          \<and> arrays s2 a2 = arrays s1 a1 \<and> arrays s2 a1 = arrays s1 a1
                          \<and> apply_on_window (objects s self) (arrays s obs) (arrays s hist)
                                (arrays s fut) = Inr (arrays s1 a1)))
                  \<and> objects s1 = objects s \<and> objects s2 = objects s
                  \<and> (\<forall>a<next_ref s. arrays s1 a = arrays s a \<and> arrays s2 a = arrays s a))"
proof -
  obtain r1 s1 where c1: "apply_on_window_call self obs hist fut s = (r1, s1)"
    by (cases "apply_on_window_call self obs hist fut s")
  obtain r2 s2 where c2: "apply_on_window_call self obs hist fut s1 = (r2, s2)"
    by (cases "apply_on_window_call self obs hist fut s1")
  note p1 = apply_on_window_call_result [OF c1]
  note p2 = apply_on_window_call_result [OF c2]
  from p1 have o1: "objects s1 = objects s"
    and k1: "\<forall>a<next_ref s. arrays s1 a = arrays s a"
    by simp_all
  from p2 have o2: "objects s2 = objects s1"
    and k2: "\<forall>a<next_ref s1. arrays s2 a = arrays s1 a"
    by simp_all
  have same_inputs: "arrays s1 obs = arrays s obs" "arrays s1 hist = arrays s hist"
    "arrays s1 fut = arrays s fut"
    using k1 assms by simp_all
  have mono: "next_ref s \<le> next_ref s1"
    using p1 by (cases r1) simp_all
  have kept: "\<forall>a<next_ref s. arrays s1 a = arrays s a \<and> arrays s2 a = arrays s a"
    using k1 k2 mono by auto
  have results: "case r1 of
      Inl e \<Rightarrow> r2 = Inl e
    | Inr a1 \<Rightarrow>
        (\<exists>a2. r2 = Inr a2 \<and> a2 \<noteq> a1
           \<and> arrays s2 a2 = arrays s1 a1 \<and> arrays s2 a1 = arrays s1 a1
           \<and> apply_on_window (objects s self) (arrays s obs) (arrays s hist) (arrays s fut)
               = Inr (arrays s1 a1))"
  proof (cases r1)
    case (Inl e)
    with p1 have "s1 = s" and "apply_on_window (objects s self) (arrays s obs) (arrays s hist)
        (arrays s fut) = Inl e"
      by simp_all
    with p2 have "r2 = Inl e"
      by (cases r2) simp_all
    with Inl show ?thesis by simp
  next
    case (Inr a1)
    with p1 have a1: "a1 = next_ref s" and n1: "next_ref s1 = Suc (next_ref s)"
      and v1: "apply_on_window (objects s self) (arrays s obs) (arrays s hist) (arrays s fut)
          = Inr (arrays s1 a1)"
      by simp_all
    from p2 v1 o1 same_inputs obtain a2 where r2: "r2 = Inr a2" and a2: "a2 = next_ref s1"
      and v2: "Inr (arrays s1 a1) = (Inr (arrays s2 a2) :: error + npfloat list)"
      by (cases r2) simp_all
    from k2 a1 n1 have "arrays s2 a1 = arrays s1 a1"
      by simp
    with Inr r2 a2 a1 n1 v1 v2 show ?thesis
      by simp
  qed
  from results o1 o2 kept show ?thesis
    by (simp add: c1 c2)
qed

theorem apply_on_window_call_twice_witness:
  "case apply_on_window_call 0 1 2 3
      \<lparr>arrays = (\<lambda>a. [])(1 := [Fin 1, Fin 1, Fin 1], 2 := [Fin 2, Fin 2, Fin 2],
                           3 := [Fin 5, Fin 5, Fin 5]),
       objects = (\<lambda>a. \<lparr>variable = ''tas'', delta_type = ''additive'', inherited = []\<rparr>),
       next_ref = 4\<rparr> of
     (r1, s1) \<Rightarrow>
       (case apply_on_window_call 0 1 2 3 s1 of
          (r2, s2) \<Rightarrow>
            r1 = Inr 4 \<and> r2 = Inr 5 \<and> arrays s2 5 = arrays s2 4
            \<and> arrays s2 3 = [Fin 5, Fin 5, Fin 5]
            \<and> delta_type (objects s2 0) = ''additive'')"
proof -
  let ?s = "\<lparr>arrays = (\<lambda>a. [])(1 := [Fin 1, Fin 1, Fin 1], 2 := [Fin 2, Fin 2, Fin 2],
                           3 := [Fin 5, Fin 5, Fin 5]),
       objects = (\<lambda>a. \<lparr>variable = ''tas'', delta_type = ''additive'', inherited = []\<rparr>),
       next_ref = 4 :: nat\<rparr>"
  obtain r1 s1 where c1: "apply_on_window_call 0 1 2 3 ?s = (r1, s1)"
    by (cases "apply_on_window_call 0 1 2 3 ?s")
  obtain r2 s2 where c2: "apply_on_window_call 0 1 2 3 s1 = (r2, s2)"
    by (cases "apply_on_window_call 0 1 2 3 s1")
  have pre: "1 < next_ref ?s" "2 < next_ref ?s" "3 < next_ref ?s"
    by simp_all
  have r1: "r1 = Inr 4" and n1: "next_ref s1 = 5"
    using c1
    by (auto simp: apply_on_window_call_def array_minus_scalar_def new_array_def)
  have "delta_type (objects s1 0) = ''additive''"
    using c1
    by (auto simp: apply_on_window_call_def array_minus_scalar_def new_array_def)
  then have r2: "r2 = Inr 5"
    using c2 n1
    by (auto simp: apply_on_window_call_def array_minus_scalar_def new_array_def)
  from apply_on_window_call_twice [OF pre, of 0] c1 c2 r1 r2
  have "arrays s2 5 = arrays s1 4" and "arrays s2 4 = arrays s1 4"
    and "objects s2 = objects ?s" and "arrays s2 3 = arrays ?s 3"
    by simp_all
  with r1 r2 show ?thesis
    unfolding c1 prod.case c2 by simp
qed

section \<open>An invalid transformation kind\<close>

text \<open>
  C2, as the claim has it: constructing a method with a \<open>delta_type\<close> outside
  additive and multiplicative fails with a ConfigurationError and yields no instance.
  The code does otherwise: \<^verbatim>\<open>from_variable("tas", delta_type = "cubic")\<close> returns an
  instance, and the error comes from \<open>apply_on_window\<close>, as a ValueError.
\<close>

theorem from_variable_invalid_delta_type_counterexample:
  "from_variable ''tas'' ''cubic'' []
     = Inr \<lparr>variable = ''tas'', delta_type = ''cubic'', inherited = []\<rparr>
   \<and> from_variable ''tas'' ''cubic'' [] \<noteq> Inl ConfigurationError
   \<and> apply_on_window \<lparr>variable = ''tas'', delta_type = ''cubic'', inherited = []\<rparr>
       [Fin 1, Fin 1, Fin 1] [Fin 2, Fin 2, Fin 2] [Fin 5, Fin 5, Fin 5]
       = Inl ValueError"
  by (simp add: from_variable_def apply_on_window_def)

text \<open>
  C2, amended: for every \<open>delta_type\<close> outside additive and multiplicative,
  \<open>from_variable\<close> returns an instance that carries the string unchanged, and every
  call of \<open>apply_on_window\<close> on that instance raises ValueError and returns no result.
\<close>

theorem invalid_delta_type_rejected_on_window:
  assumes "d \<noteq> ''additive''" and "d \<noteq> ''multiplicative''"
  shows "\<exists>m. from_variable v d kwargs = Inr m \<and> delta_type m = d
           \<and> (\<forall>obs hist fut. apply_on_window m obs hist fut = Inl ValueError)"
  using assms by (simp add: from_variable_def apply_on_window_def)

theorem invalid_delta_type_rejected_on_window_witness:
  "\<exists>m. from_variable ''tas'' ''cubic'' [] = Inr m \<and> delta_type m = ''cubic''
         \<and> (\<forall>obs hist fut. apply_on_window m obs hist fut = Inl ValueError)"
  using invalid_delta_type_rejected_on_window [of "''cubic''" "''tas''" "[]"]
  by simp

section \<open>Resolution of default settings\<close>

lemma map_of_filter_absent:
  "k \<notin> fst ` set kwargs \<Longrightarrow>
   map_of [kv \<leftarrow> xs. fst kv \<notin> set (map fst kwargs)] k = map_of xs k"
  by (induction xs) auto

lemma map_of_dict_merge:
  "map_of (dict_merge defaults kwargs) k
     = (case map_of kwargs k of Some x \<Rightarrow> Some x | None \<Rightarrow> map_of defaults k)"
proof (cases "map_of kwargs k")
  case None
  then have k: "k \<notin> fst ` set kwargs"
    by (simp add: map_of_eq_None_iff)
  have "map_of (dict_merge defaults kwargs) k
      = (map_of kwargs ++ map_of [kv \<leftarrow> defaults. fst kv \<notin> set (map fst kwargs)]) k"
    unfolding dict_merge_def map_of_append ..
  also have "\<dots> = map_of defaults k"
    unfolding map_add_def map_of_filter_absent [OF k]
    by (cases "map_of defaults k") (simp_all add: None)
  finally show ?thesis
    by (simp add: None)
next
  case (Some x)
  then have "map_of kwargs k \<noteq> None"
    by simp
  then have "k \<in> fst ` set kwargs"
    by (simp add: map_of_eq_None_iff)
  then have "k \<notin> fst ` set [kv \<leftarrow> defaults. fst kv \<notin> set (map fst kwargs)]"
    by force
  then have "map_of [kv \<leftarrow> defaults. fst kv \<notin> set (map fst kwargs)] k = None"
    by (simp only: map_of_eq_None_iff not_False_eq_True)
  then have "map_of (dict_merge defaults kwargs) k = map_of kwargs k"
    unfolding dict_merge_def map_of_append map_add_def by simp
  with Some show ?thesis
    by simp
qed

lemma map_of_not_delta_type:
  "k \<noteq> ''delta_type'' \<Longrightarrow> map_of [kv \<leftarrow> xs. fst kv \<noteq> ''delta_type''] k = map_of xs k"
  by (induction xs) auto

lemma keys_dict_merge:
  "set (map fst (dict_merge defaults kwargs)) \<subseteq> set (map fst defaults) \<union> set (map fst kwargs)"
  by (auto simp: dict_merge_def)

lemma attribute_init:
  assumes "LinearScaling_init names v params = Inr m"
    and "map_of params k = Some x"
  shows "attribute m k = Some x"
proof -
  from assms(1) have ok: "list_all (is_attribute names) (map fst params)"
    and m: "m = \<lparr>variable = v,
        delta_type = (case map_of params ''delta_type'' of None \<Rightarrow> ''additive'' | Some d \<Rightarrow> d),
        inherited = [kv \<leftarrow> params. fst kv \<noteq> ''delta_type'']\<rparr>"
    by (auto simp: LinearScaling_init_def split: if_splits)
  from assms(2) have "map_of params k \<noteq> None"
    by simp
  then have "k \<in> fst ` set params"
    by (simp add: map_of_eq_None_iff)
  with ok have "k \<noteq> ''variable''"
    by (auto simp: list_all_iff is_attribute_def)
  then show ?thesis
    using assms(2) by (auto simp: attribute_def m map_of_not_delta_type)
qed

lemma resolve_configured:
  assumes "list_all (is_attribute names) (map fst defaults)"
    and "list_all (is_attribute names) (map fst kwargs)"
    and "distinct (map fst kwargs)"
  shows "\<exists>m. LinearScaling_init names v (dict_merge defaults kwargs) = Inr m
           \<and> variable m = v
           \<and> (\<forall>(k, x)\<in>set kwargs. attribute m k = Some x)
           \<and> (\<forall>(k, x)\<in>set defaults.
                k \<notin> set (map fst kwargs) \<longrightarrow> map_of defaults k = Some x \<longrightarrow>
                attribute m k = Some x)"
proof -
  have "list_all (is_attribute names) (map fst (dict_merge defaults kwargs))"
    using assms(1,2) keys_dict_merge [of defaults kwargs]
    unfolding list_all_iff by blast
  then obtain m where m: "LinearScaling_init names v (dict_merge defaults kwargs) = Inr m"
    and v: "variable m = v"
    by (simp add: LinearScaling_init_def)
  have "attribute m k = Some x" if "(k, x) \<in> set kwargs" for k x
  proof -
    from that assms(3) have "map_of kwargs k = Some x"
      by (rule map_of_is_SomeI [rotated])
    then have "map_of (dict_merge defaults kwargs) k = Some x"
      by (simp add: map_of_dict_merge)
    with m show ?thesis
      by (rule attribute_init)
  qed
  moreover have "attribute m k = Some x"
    if "k \<notin> set (map fst kwargs)" and "map_of defaults k = Some x" for k x
  proof -
    from that(1) have "map_of kwargs k = None"
      by (simp add: map_of_eq_None_iff)
    with that(2) have "map_of (dict_merge defaults kwargs) k = Some x"
      by (simp add: map_of_dict_merge)
    with m show ?thesis
      by (rule attribute_init)
  qed
  ultimately show ?thesis
    using m v by blast
qed


lemma default_settings_entry:
  "map_of default_settings v = Some defaults \<Longrightarrow> \<exists>d. defaults = [(''delta_type'', d)]"
  by (auto simp: default_settings_def split: if_splits)

lemma experimental_default_settings_entry:
  "map_of experimental_default_settings v = Some defaults \<Longrightarrow> \<exists>d. defaults = [(''delta_type'', d)]"
  by (auto simp: experimental_default_settings_def split: if_splits)

lemma entry_attributes: "defaults = [(''delta_type'', d)] \<Longrightarrow> list_all (is_attribute names) (map fst defaults)"
  by (simp add: is_attribute_def)



text \<open>
  C4. For keyword arguments that name attributes of the class: resolving a variable
  of the vetted table \<open>default_settings\<close> emits no warning; resolving a variable that
  only the table \<open>experimental_default_settings\<close> has emits exactly one warning, the
  experimental-defaults warning for that variable. In both cases the call returns the
  configured method: its variable is the one resolved, each keyword argument is the
  value of its attribute, and \<open>delta_type\<close>, when not overridden, is the default that
  the table gives for the variable.
\<close>

theorem from_variable_warnings:
  assumes "list_all (is_attribute names) (map fst kwargs)" and "distinct (map fst kwargs)"
  shows "(v \<in> fst ` set default_settings \<longrightarrow>
            (\<exists>m defaults. map_of default_settings v = Some defaults
               \<and> from_variable_settings names v kwargs = Inr (m, [])
               \<and> variable m = v \<and> (\<forall>(k, x)\<in>set kwargs. attribute m k = Some x)
               \<and> (''delta_type'' \<notin> set (map fst kwargs) \<longrightarrow>
                    defaults = [(''delta_type'', delta_type m)])))
         \<and> (v \<notin> fst ` set default_settings \<and> v \<in> fst ` set experimental_default_settings \<longrightarrow>
            (\<exists>m defaults. map_of experimental_default_settings v = Some defaults
               \<and> from_variable_settings names v kwargs = Inr (m, [ExperimentalDefaultsWarning v])
               \<and> variable m = v \<and> (\<forall>(k, x)\<in>set kwargs. attribute m k = Some x)
               \<and> (''delta_type'' \<notin> set (map fst kwargs) \<longrightarrow>
                    defaults = [(''delta_type'', delta_type m)])))"
proof -
  have configured: "\<exists>m. LinearScaling_init names v (dict_merge defaults kwargs) = Inr m
      \<and> variable m = v \<and> (\<forall>(k, x)\<in>set kwargs. attribute m k = Some x)
      \<and> (''delta_type'' \<notin> set (map fst kwargs) \<longrightarrow> defaults = [(''delta_type'', delta_type m)])"
    if "defaults = [(''delta_type'', d)]" for defaults d
  proof -
    from that have "list_all (is_attribute names) (map fst defaults)"
      by (rule entry_attributes)
    from resolve_configured [OF this assms, of v] obtain m
      where m: "LinearScaling_init names v (dict_merge defaults kwargs) = Inr m"
        and v: "variable m = v" and kw: "\<forall>(k, x)\<in>set kwargs. attribute m k = Some x"
        and df: "\<forall>(k, x)\<in>set defaults. k \<notin> set (map fst kwargs) \<longrightarrow>
                  map_of defaults k = Some x \<longrightarrow> attribute m k = Some x"
      by blast
    from df that have "''delta_type'' \<notin> set (map fst kwargs) \<longrightarrow> delta_type m = d"
      by (simp add: attribute_def)
    with m v kw that show ?thesis
      by blast
  qed
  show ?thesis
  proof (intro conjI impI)
    assume "v \<in> fst ` set default_settings"
    then have "map_of default_settings v \<noteq> None"
      by (simp add: map_of_eq_None_iff)
    then obtain defaults where tbl: "map_of default_settings v = Some defaults"
      by blast
    with default_settings_entry obtain d where "defaults = [(''delta_type'', d)]"
      by blast
    from configured [OF this] tbl
    show "\<exists>m defaults. map_of default_settings v = Some defaults
               \<and> from_variable_settings names v kwargs = Inr (m, [])
               \<and> variable m = v \<and> (\<forall>(k, x)\<in>set kwargs. attribute m k = Some x)
               \<and> (''delta_type'' \<notin> set (map fst kwargs) \<longrightarrow>
                    defaults = [(''delta_type'', delta_type m)])"
      by (auto simp: from_variable_settings_def cls_from_variable_def)
  next
    assume "v \<notin> fst ` set default_settings \<and> v \<in> fst ` set experimental_default_settings"
    then have none: "map_of default_settings v = None"
      and "map_of experimental_default_settings v \<noteq> None"
      by (simp_all add: map_of_eq_None_iff)
    then obtain defaults where tbl: "map_of experimental_default_settings v = Some defaults"
      by blast
    with experimental_default_settings_entry obtain d where "defaults = [(''delta_type'', d)]"
      by blast
    from configured [OF this] tbl none
    show "\<exists>m defaults. map_of experimental_default_settings v = Some defaults
               \<and> from_variable_settings names v kwargs = Inr (m, [ExperimentalDefaultsWarning v])
               \<and> variable m = v \<and> (\<forall>(k, x)\<in>set kwargs. attribute m k = Some x)
               \<and> (''delta_type'' \<notin> set (map fst kwargs) \<longrightarrow>
                    defaults = [(''delta_type'', delta_type m)])"
      by (auto simp: from_variable_settings_def cls_from_variable_def)
  qed
qed

theorem from_variable_warnings_witness:
  "(\<exists>m. from_variable_settings [] ''tas'' [] = Inr (m, [])
      \<and> variable m = ''tas'' \<and> delta_type m = ''additive'')
   \<and> (\<exists>m. from_variable_settings [] ''psl'' []
            = Inr (m, [ExperimentalDefaultsWarning ''psl''])
      \<and> variable m = ''psl'' \<and> delta_type m = ''additive'')"
proof -
  have k: "list_all (is_attribute []) (map fst [])" "distinct (map fst ([] :: (string \<times> string) list))"
    by simp_all
  have tas: "''tas'' \<in> fst ` set default_settings"
    by (simp add: default_settings_def)
  have psl: "''psl'' \<notin> fst ` set default_settings
      \<and> ''psl'' \<in> fst ` set experimental_default_settings"
    by (simp add: default_settings_def experimental_default_settings_def)
  have e1: "map_of default_settings ''tas'' = Some [(''delta_type'', ''additive'')]"
    by (simp add: default_settings_def)
  have e2: "map_of experimental_default_settings ''psl'' = Some [(''delta_type'', ''additive'')]"
    by (simp add: experimental_default_settings_def)
  from from_variable_warnings [OF k, of "''tas''"] tas e1
  have "\<exists>m. from_variable_settings [] ''tas'' [] = Inr (m, [])
      \<and> variable m = ''tas'' \<and> delta_type m = ''additive''"
    by auto
  moreover from from_variable_warnings [OF k, of "''psl''"] psl e2
  have "\<exists>m. from_variable_settings [] ''psl'' [] = Inr (m, [ExperimentalDefaultsWarning ''psl''])
      \<and> variable m = ''psl'' \<and> delta_type m = ''additive''"
    by auto
  ultimately show ?thesis
    by blast
qed

section \<open>Unit conversion\<close>

text \<open>
  C8. The unit conversion divides every element of the ERA5 observations by 86400 and
  keeps the shape of the array; cm_hist, cm_future and the NCEP/DOE observations are
  what they were.
\<close>

theorem convert_units_era5_only:
  "map (map length) (obs_era5 (convert_units s)) = map (map length) (obs_era5 s)
   \<and> (\<forall>t i j. t < length (obs_era5 s) \<longrightarrow> i < length (obs_era5 s ! t) \<longrightarrow>
        j < length (obs_era5 s ! t ! i) \<longrightarrow>
        obs_era5 (convert_units s) ! t ! i ! j = obs_era5 s ! t ! i ! j / 86400)
   \<and> cm_hist (convert_units s) = cm_hist s
   \<and> cm_future (convert_units s) = cm_future s
   \<and> obs_ncep_doe (convert_units s) = obs_ncep_doe s"
  by (simp add: convert_units_def np_divide_scalar_def comp_def)

theorem convert_units_era5_only_witness:
  "obs_era5 (convert_units
      \<lparr>cm_hist = [[[1]]], cm_future = [[[2]]], obs_era5 = [[[86400, 172800]]],
       obs_ncep_doe = [[[3]]]\<rparr>) ! 0 ! 0 ! 1 = 2"
proof -
  let ?s = "\<lparr>cm_hist = [[[1]]], cm_future = [[[2]]], obs_era5 = [[[86400, 172800]]],
       obs_ncep_doe = [[[3 :: real]]]\<rparr>"
  have "0 < length (obs_era5 ?s) \<longrightarrow> 0 < length (obs_era5 ?s ! 0) \<longrightarrow>
        1 < length (obs_era5 ?s ! 0 ! 0) \<longrightarrow>
        obs_era5 (convert_units ?s) ! 0 ! 0 ! 1 = obs_era5 ?s ! 0 ! 0 ! 1 / 86400"
    using convert_units_era5_only [of ?s] by blast
  then show ?thesis by simp
qed

section \<open>Sequential and parallel execution of the orchestrator\<close>

lemma assemble_iterate:
  "assemble failsafe out (map (\<lambda>loc. (loc, work loc)) order) = iterate_locations failsafe work out order"
  by (induction order arbitrary: out) (auto split: sum.splits)

lemma iterate_failsafe:
  "iterate_locations True work out locs = Inr (fold (store work) locs out)"
  by (induction locs arbitrary: out) (auto simp: store_def split: sum.splits)

lemma iterate_all_ok:
  "\<forall>loc\<in>set locs. \<exists>ys. work loc = Inr ys \<Longrightarrow>
   iterate_locations failsafe work out locs = Inr (fold (store work) locs out)"
  by (induction locs arbitrary: out) (auto simp: store_def split: sum.splits)

lemma iterate_strict_fails:
  "loc \<in> set locs \<Longrightarrow> work loc = Inl e \<Longrightarrow> \<exists>e'. iterate_locations False work out locs = Inl e'"
  by (induction locs arbitrary: out) (auto split: sum.splits)

lemma set_cell_commute:
  assumes "loc \<noteq> loc'"
  shows "set_cell (set_cell plane loc y) loc' z = set_cell (set_cell plane loc' z) loc y"
proof (cases "fst loc = fst loc'")
  case False
  then show ?thesis
    by (simp add: set_cell_def list_update_swap)
next
  case True
  with assms have j: "snd loc \<noteq> snd loc'"
    by (simp add: prod_eq_iff)
  show ?thesis
  proof (cases "fst loc < length plane")
    case True
    with \<open>fst loc = fst loc'\<close> j show ?thesis
      by (simp add: set_cell_def list_update_swap)
  next
    case False
    with \<open>fst loc = fst loc'\<close> show ?thesis
      by (simp add: set_cell_def list_update_beyond)
  qed
qed

lemma write_location_commute:
  assumes "loc \<noteq> loc'"
  shows "write_location (write_location out loc ys) loc' zs
       = write_location (write_location out loc' zs) loc ys"
proof (induction out arbitrary: ys zs)
  case Nil
  then show ?case by (simp add: write_location_def)
next
  case (Cons plane out)
  show ?case
  proof (cases ys)
    case Nil
    then show ?thesis by (simp add: write_location_def)
  next
    case ys: (Cons y ys')
    show ?thesis
    proof (cases zs)
      case Nil
      then show ?thesis by (simp add: write_location_def)
    next
      case zs: (Cons z zs')
      from Cons.IH [of ys' zs'] show ?thesis
        by (simp add: write_location_def ys zs set_cell_commute [OF assms])
    qed
  qed
qed

lemma store_commute: "store work loc \<circ> store work loc' = store work loc' \<circ> store work loc"
proof (cases "loc = loc'")
  case True
  then show ?thesis by simp
next
  case False
  then show ?thesis
    by (auto simp: store_def fun_eq_iff write_location_commute split: sum.splits)
qed

lemma fold_store_permuted:
  "mset xs = mset ys \<Longrightarrow> fold (store work) xs = fold (store work) ys"
  by (rule fold_multiset_equiv) (simp_all add: store_commute)


lemma length_set_cell: "length (set_cell plane loc y) = length plane"
  by (simp add: set_cell_def)

lemma length_set_cell_row:
  "i < length plane \<Longrightarrow> length (set_cell plane loc y ! i) = length (plane ! i)"
  by (cases "i = fst loc") (simp_all add: set_cell_def)

lemma cell_set_cell_same:
  "fst loc < length plane \<Longrightarrow> snd loc < length (plane ! fst loc) \<Longrightarrow>
   set_cell plane loc y ! fst loc ! snd loc = y"
  by (simp add: set_cell_def)

lemma cell_set_cell_other:
  assumes "loc0 \<noteq> loc"
  shows "set_cell plane loc y ! fst loc0 ! snd loc0 = plane ! fst loc0 ! snd loc0"
proof (cases "fst loc0 = fst loc")
  case False
  then show ?thesis by (simp add: set_cell_def)
next
  case True
  with assms have j: "snd loc0 \<noteq> snd loc"
    by (simp add: prod_eq_iff)
  show ?thesis
  proof (cases "fst loc < length plane")
    case True
    with \<open>fst loc0 = fst loc\<close> j show ?thesis
      by (simp add: set_cell_def)
  next
    case False
    then show ?thesis
      by (simp add: set_cell_def list_update_beyond)
  qed
qed

lemma length_write_location:
  "length ys = length out \<Longrightarrow> length (write_location out loc ys) = length out"
  by (simp add: write_location_def)

lemma in_bounds_write_location:
  assumes "in_bounds out loc0"
  shows "in_bounds (write_location out loc ys) loc0"
  unfolding in_bounds_def
proof
  fix plane'
  assume "plane' \<in> set (write_location out loc ys)"
  then obtain plane y where p: "plane \<in> set out" and eq: "plane' = set_cell plane loc y"
    by (auto simp: write_location_def dest: set_zip_leftD)
  from assms p have "fst loc0 < length plane" and "snd loc0 < length (plane ! fst loc0)"
    by (simp_all add: in_bounds_def)
  then show "fst loc0 < length plane' \<and> snd loc0 < length (plane' ! fst loc0)"
    by (simp add: eq length_set_cell length_set_cell_row)
qed

lemma series_write_location_same:
  assumes "in_bounds out loc" and "length ys = length out"
  shows "series (write_location out loc ys) loc = ys"
proof -
  have "map (\<lambda>(plane, y). set_cell plane loc y ! fst loc ! snd loc) (zip out ys)
      = map (\<lambda>(plane, y). y) (zip out ys)"
    using assms(1)
    by (intro map_cong refl) (auto simp: in_bounds_def cell_set_cell_same dest: set_zip_leftD)
  also have "\<dots> = map snd (zip out ys)"
    by (simp add: case_prod_unfold)
  also have "\<dots> = ys"
    using assms(2) by simp
  finally show ?thesis
    by (simp add: series_def write_location_def comp_def case_prod_unfold)
qed

lemma series_write_location_other:
  assumes "loc0 \<noteq> loc" and "length ys = length out"
  shows "series (write_location out loc ys) loc0 = series out loc0"
proof -
  have "map (\<lambda>(plane, y). set_cell plane loc y ! fst loc0 ! snd loc0) (zip out ys)
      = map (\<lambda>(plane, y). plane ! fst loc0 ! snd loc0) (zip out ys)"
    by (simp add: cell_set_cell_other [OF assms(1)])
  also have "\<dots> = map (\<lambda>plane. plane ! fst loc0 ! snd loc0) (map fst (zip out ys))"
    by (simp add: comp_def case_prod_unfold)
  also have "map fst (zip out ys) = out"
    using assms(2) by simp
  finally show ?thesis
    by (simp add: series_def write_location_def comp_def case_prod_unfold)
qed

lemma length_store:
  "aligned work {loc} (length out) \<Longrightarrow> length (store work loc out) = length out"
  by (auto simp: store_def aligned_def length_write_location split: sum.splits)

lemma in_bounds_store: "in_bounds out loc0 \<Longrightarrow> in_bounds (store work loc out) loc0"
  by (auto simp: store_def in_bounds_write_location split: sum.splits)

lemma series_store_other:
  "loc0 \<noteq> loc \<Longrightarrow> aligned work {loc} (length out) \<Longrightarrow>
   series (store work loc out) loc0 = series out loc0"
  by (auto simp: store_def aligned_def series_write_location_other split: sum.splits)

lemma series_store_same:
  "in_bounds out loc \<Longrightarrow> aligned work {loc} (length out) \<Longrightarrow>
   series (store work loc out) loc = (case work loc of Inr ys \<Rightarrow> ys | Inl e \<Rightarrow> series out loc)"
  by (auto simp: store_def aligned_def series_write_location_same split: sum.splits)

lemma aligned_subset: "aligned work A nt \<Longrightarrow> B \<subseteq> A \<Longrightarrow> aligned work B nt"
  by (auto simp: aligned_def)

lemma series_fold_store_other:
  "loc0 \<notin> set locs \<Longrightarrow> aligned work (set locs) (length out) \<Longrightarrow>
   series (fold (store work) locs out) loc0 = series out loc0"
proof (induction locs arbitrary: out)
  case Nil
  then show ?case by simp
next
  case (Cons loc locs)
  have a: "aligned work {loc} (length out)" and b: "aligned work (set locs) (length out)"
    using Cons.prems(2) by (auto intro: aligned_subset)
  have "series (fold (store work) locs (store work loc out)) loc0
      = series (store work loc out) loc0"
    using Cons.prems(1) b by (intro Cons.IH) (simp_all add: length_store [OF a])
  also have "\<dots> = series out loc0"
    using Cons.prems(1) a by (simp add: series_store_other)
  finally show ?case by simp
qed

lemma series_fold_store_at:
  "distinct locs \<Longrightarrow> loc0 \<in> set locs \<Longrightarrow> in_bounds out loc0 \<Longrightarrow>
   aligned work (set locs) (length out) \<Longrightarrow>
   series (fold (store work) locs out) loc0
     = (case work loc0 of Inr ys \<Rightarrow> ys | Inl e \<Rightarrow> series out loc0)"
proof (induction locs arbitrary: out)
  case Nil
  then show ?case by simp
next
  case (Cons loc locs)
  have a: "aligned work {loc} (length out)" and b: "aligned work (set locs) (length out)"
    using Cons.prems(4) by (auto intro: aligned_subset)
  have len: "length (store work loc out) = length out"
    by (rule length_store [OF a])
  show ?case
  proof (cases "loc0 = loc")
    case True
    with Cons.prems(1) have "loc0 \<notin> set locs"
      by simp
    then have "series (fold (store work) locs (store work loc out)) loc0
        = series (store work loc out) loc0"
      using b by (intro series_fold_store_other) (simp_all add: len)
    with True Cons.prems(3) a show ?thesis
      by (simp add: series_store_same cong: sum.case_cong)
  next
    case False
    with Cons.prems(2) have in_rest: "loc0 \<in> set locs"
      by simp
    have "series (fold (store work) locs (store work loc out)) loc0
        = (case work loc0 of Inr ys \<Rightarrow> ys | Inl e \<Rightarrow> series (store work loc out) loc0)"
      using Cons.prems(1) in_rest Cons.prems(3) b
      by (intro Cons.IH) (simp_all add: len in_bounds_store)
    with False a show ?thesis
      by (simp add: series_store_other cong: sum.case_cong)
  qed
qed

lemma in_bounds_sentinel:
  "loc \<in> set (locations ext) \<Longrightarrow> in_bounds (sentinel_field nt ext) loc"
  by (auto simp: in_bounds_def sentinel_field_def locations_def)

lemma series_sentinel:
  "loc \<in> set (locations ext) \<Longrightarrow> series (sentinel_field nt ext) loc = replicate nt NaN"
  by (auto simp: series_def sentinel_field_def locations_def map_replicate_const)

lemma distinct_locations: "distinct (locations ext)"
  by (simp add: locations_def distinct_product)

text \<open>
  C7. Whatever the order in which the workers complete the units of work (each
  location once), the parallel run of the orchestrator's entry point and the
  sequential run produce the same ResultField: one returns a ResultField exactly when
  the other returns it, and under \<open>failsafe\<close> the two calls return the same value.
  When the strategy's outputs are as long as the time axis of the future field, the
  series of the ResultField at every location is the output of the strategy for that
  very location, or the sentinel where the strategy failed.
\<close>

theorem parallel_equals_sequential:
  assumes "mset completion_order = mset (locations (extents fut))"
  shows "(\<forall>r. Debiaser_apply f obs hist fut True failsafe completion_order = Inr r
             \<longleftrightarrow> Debiaser_apply f obs hist fut False failsafe completion_order = Inr r)
       \<and> (failsafe \<longrightarrow> Debiaser_apply f obs hist fut True failsafe completion_order
             = Debiaser_apply f obs hist fut False failsafe completion_order)
       \<and> ((\<forall>loc\<in>set (locations (extents fut)). \<forall>ys.
              unit_of_work f obs hist fut loc = Inr ys \<longrightarrow> length ys = length fut) \<longrightarrow>
          (\<forall>r. Debiaser_apply f obs hist fut True failsafe completion_order = Inr r \<longrightarrow>
             (\<forall>loc\<in>set (locations (extents fut)).
                series r loc = (case unit_of_work f obs hist fut loc of
                                  Inr ys \<Rightarrow> ys
                                | Inl e \<Rightarrow> replicate (length fut) NaN))))"
proof (cases "extents obs \<noteq> extents fut \<or> extents hist \<noteq> extents fut")
  case True
  then have "Debiaser_apply f obs hist fut p fs completion_order = Inl ShapeMismatchError" for p fs
    by (simp add: Debiaser_apply_def)
  then show ?thesis by simp
next
  case False
  define work where "work = unit_of_work f obs hist fut"
  define out0 where "out0 = sentinel_field (length fut) (extents fut)"
  define locs where "locs = locations (extents fut)"
  have par: "Debiaser_apply f obs hist fut True failsafe completion_order
      = iterate_locations failsafe work out0 completion_order"
    using False by (simp add: Debiaser_apply_def assemble_iterate work_def out0_def)
  have seq: "Debiaser_apply f obs hist fut False failsafe completion_order
      = iterate_locations failsafe work out0 locs"
    using False by (simp add: Debiaser_apply_def work_def out0_def locs_def)
  have perm: "mset completion_order = mset locs"
    using assms by (simp add: locs_def)
  then have sets: "set completion_order = set locs"
    by (rule mset_eq_setD)
  have dist: "distinct completion_order"
    using mset_eq_imp_distinct_iff [OF perm] distinct_locations [of "extents fut"]
    by (simp add: locs_def)
  have folds: "fold (store work) completion_order out0 = fold (store work) locs out0"
    using fold_store_permuted [OF perm, of work] by simp
  have len0: "length out0 = length fut"
    by (simp add: out0_def sentinel_field_def)
  show ?thesis
  proof (cases "failsafe \<or> (\<forall>loc\<in>set locs. \<exists>ys. work loc = Inr ys)")
    case True
    then have p: "iterate_locations failsafe work out0 completion_order
        = Inr (fold (store work) completion_order out0)"
      and s: "iterate_locations failsafe work out0 locs = Inr (fold (store work) locs out0)"
      using sets by (auto simp: iterate_failsafe iterate_all_ok)
    have mapped: "series r loc = (case work loc of Inr ys \<Rightarrow> ys
                                   | Inl e \<Rightarrow> replicate (length fut) NaN)"
      if al: "\<forall>loc\<in>set locs. \<forall>ys. work loc = Inr ys \<longrightarrow> length ys = length fut"
        and r: "iterate_locations failsafe work out0 completion_order = Inr r"
        and loc: "loc \<in> set locs" for r loc
    proof -
      have "aligned work (set completion_order) (length out0)"
        using al sets by (simp add: aligned_def len0)
      moreover have "in_bounds out0 loc"
        using loc by (simp add: out0_def locs_def in_bounds_sentinel)
      moreover have "r = fold (store work) completion_order out0"
        using r p by simp
      ultimately have "series r loc = (case work loc of Inr ys \<Rightarrow> ys | Inl e \<Rightarrow> series out0 loc)"
        using dist loc sets by (simp add: series_fold_store_at)
      moreover have "series out0 loc = replicate (length fut) NaN"
        using loc by (simp add: out0_def locs_def series_sentinel)
      ultimately show ?thesis by (simp cong: sum.case_cong)
    qed
    from p s folds mapped show ?thesis
      unfolding par seq work_def [symmetric] locs_def [symmetric] by auto
  next
    case False
    then have nf: "\<not> failsafe"
      by simp
    from False obtain loc where loc: "loc \<in> set locs" and "\<nexists>ys. work loc = Inr ys"
      by blast
    then obtain e where e: "work loc = Inl e"
      by (cases "work loc") auto
    from iterate_strict_fails [of loc locs work e out0, OF loc e] obtain e1
      where s: "iterate_locations False work out0 locs = Inl e1"
      by blast
    from loc sets have "loc \<in> set completion_order"
      by simp
    from iterate_strict_fails [of loc completion_order work e out0, OF this e] obtain e2
      where p: "iterate_locations False work out0 completion_order = Inl e2"
      by blast
    from nf p s show ?thesis
      unfolding par seq by simp
  qed
qed

theorem parallel_equals_sequential_witness:
  "Debiaser_apply
       (apply_on_window \<lparr>variable = ''tas'', delta_type = ''additive'', inherited = []\<rparr>)
       [[[Fin 1, Fin 10]], [[Fin 1, Fin 10]]] [[[Fin 2, Fin 20]], [[Fin 2, Fin 20]]]
       [[[Fin 5, Fin 50]], [[Fin 6, Fin 60]], [[Fin 7, Fin 70]]]
       True False [(0, 1), (0, 0)]
     = Inr [[[Fin 4, Fin 40]], [[Fin 5, Fin 50]], [[Fin 6, Fin 60]]]
   \<and> Debiaser_apply
       (apply_on_window \<lparr>variable = ''tas'', delta_type = ''additive'', inherited = []\<rparr>)
       [[[Fin 1, Fin 10]], [[Fin 1, Fin 10]]] [[[Fin 2, Fin 20]], [[Fin 2, Fin 20]]]
       [[[Fin 5, Fin 50]], [[Fin 6, Fin 60]], [[Fin 7, Fin 70]]]
       True True [(0, 1), (0, 0)]
     = Debiaser_apply
       (apply_on_window \<lparr>variable = ''tas'', delta_type = ''additive'', inherited = []\<rparr>)
       [[[Fin 1, Fin 10]], [[Fin 1, Fin 10]]] [[[Fin 2, Fin 20]], [[Fin 2, Fin 20]]]
       [[[Fin 5, Fin 50]], [[Fin 6, Fin 60]], [[Fin 7, Fin 70]]]
       False True [(0, 1), (0, 0)]
   \<and> unit_of_work
       (apply_on_window \<lparr>variable = ''tas'', delta_type = ''additive'', inherited = []\<rparr>)
       [[[Fin 1, Fin 10]], [[Fin 1, Fin 10]]] [[[Fin 2, Fin 20]], [[Fin 2, Fin 20]]]
       [[[Fin 5, Fin 50]], [[Fin 6, Fin 60]], [[Fin 7, Fin 70]]] (0, 1)
     = Inr [Fin 40, Fin 50, Fin 60]
   \<and> series [[[Fin 4, Fin 40]], [[Fin 5, Fin 50]], [[Fin 6, Fin 60]]] (0, 1)
     = [Fin 40, Fin 50, Fin 60]"
proof -
  let ?f = "apply_on_window \<lparr>variable = ''tas'', delta_type = ''additive'', inherited = []\<rparr>"
  let ?obs = "[[[Fin 1, Fin 10]], [[Fin 1, Fin 10]]]"
  let ?hist = "[[[Fin 2, Fin 20]], [[Fin 2, Fin 20]]]"
  let ?fut = "[[[Fin 5, Fin 50]], [[Fin 6, Fin 60]], [[Fin 7, Fin 70]]]"
  let ?r = "[[[Fin 4, Fin 40]], [[Fin 5, Fin 50]], [[Fin 6, Fin 60]]]"
  have locs: "locations (extents ?fut) = [(0, 0), (0, 1)]"
    by (simp add: locations_def extents_def)
  have order: "mset [(0, 1), (0, 0 :: nat)] = mset (locations (extents ?fut))"
    by (simp add: locs)
  note main = parallel_equals_sequential [OF order, of ?f ?obs ?hist]
  have u0: "unit_of_work ?f ?obs ?hist ?fut (0, 0) = Inr [Fin 4, Fin 5, Fin 6]"
    by (simp add: unit_of_work_def series_def apply_on_window_def np_mean_def
        fadd_Fin fsub_Fin fdiv_Fin representable_Ints)
  have u1: "unit_of_work ?f ?obs ?hist ?fut (0, 1) = Inr [Fin 40, Fin 50, Fin 60]"
    by (simp add: unit_of_work_def series_def apply_on_window_def np_mean_def
        fadd_Fin fsub_Fin fdiv_Fin representable_Ints)
  from u1 have u1': "unit_of_work ?f ?obs ?hist ?fut (0, Suc 0) = Inr [Fin 40, Fin 50, Fin 60]"
    by simp
  have seq: "Debiaser_apply ?f ?obs ?hist ?fut False False [(0, 1), (0, 0)] = Inr ?r"
    unfolding Debiaser_apply_def locs
    by (simp add: u0 u1' extents_def sentinel_field_def write_location_def set_cell_def
        numeral_3_eq_3)
  with main [of False] have par: "Debiaser_apply ?f ?obs ?hist ?fut True False [(0, 1), (0, 0)] = Inr ?r"
    by blast
  have same: "Debiaser_apply ?f ?obs ?hist ?fut True True [(0, 1), (0, 0)]
      = Debiaser_apply ?f ?obs ?hist ?fut False True [(0, 1), (0, 0)]"
    using main [of True] by blast
  have al: "\<forall>loc\<in>set (locations (extents ?fut)). \<forall>ys.
      unit_of_work ?f ?obs ?hist ?fut loc = Inr ys \<longrightarrow> length ys = length ?fut"
    by (auto simp: locs unit_of_work_def apply_on_window_def series_def)
  have "(0, 1) \<in> set (locations (extents ?fut))"
    by (simp add: locs)
  with main [of False] al par
  have "series ?r (0, 1) = (case unit_of_work ?f ?obs ?hist ?fut (0, 1) of
          Inr ys \<Rightarrow> ys | Inl e \<Rightarrow> replicate (length ?fut) NaN)"
    by blast
  with u1 have "series ?r (0, 1) = [Fin 40, Fin 50, Fin 60]"
    by simp
  with par same u1 show ?thesis by blast
qed

end
